theory Spec2Isabelle
  imports Complex_Main "HOL-Library.Signed_Division"
begin

section \<open>Python values, errors and numpy arrays\<close>

text \<open>
  The module \<^verbatim>\<open>pad.py\<close> is Python 2 code on top of numpy. Its parameters are
  duck-typed: a pad-width, stat-length, constant-value or end-value specification is
  whatever the caller passes. The embedding keeps that: a specification is a
  \<open>pyobj\<close>, which is \<open>None\<close>, an integer, or a tuple/list of further objects.

  Modelling boundaries, stated once:
  \<^item> numbers in specifications and array elements are mathematical integers; float
    arguments, float arrays and the 64-bit range of numpy integers are not modelled;
  \<^item> a numpy \<open>float64\<close> is modelled by an exact rational or one of the three
    non-finite values, so the model agrees with numpy wherever the float operations
    involved are exact (integers up to \<open>2^53\<close> in magnitude, halves, and the quotients
    of the documented examples);
  \<^item> numpy itself is not part of the repository. Its operations (slicing, slice
    assignment with broadcasting, \<open>apply_along_axis\<close>, \<open>average\<close>, \<open>median\<close>)
    are modelled after the numpy 1.x releases that run under Python 2;
  \<^item> a component of a validated pair that is itself a sequence passes the validation
    (Python 2 orders every tuple after every integer). What numpy does with it later
    (an error in most places, a broadcast in a few) is outside the model, which
    reports \<open>TypeError\<close> where such a component is used as a number.
\<close>

datatype pyobj = PyNone | PyInt int | PySeq "pyobj list"

datatype error =
    PadWidthWrongNumberOfValues nat pyobj
  | NegativePadWidth
  | IndexError
  | TypeError
  | ValueError

datatype npfloat = Finite rat | PosInf | NegInf | NaN

record ndarray =
  shape :: "nat list"
  data :: "int list"

record kwargs =
  kw_stat_len :: pyobj
  kw_constant_values :: pyobj
  kw_end_value :: pyobj

subsection \<open>Python built-ins on objects\<close>

fun is_seq :: "pyobj \<Rightarrow> bool" where
  "is_seq (PySeq xs) = True"
| "is_seq x = False"

fun is_num :: "pyobj \<Rightarrow> bool" where
  "is_num (PyInt i) = True"
| "is_num x = False"

text \<open>\<^verbatim>\<open>len(x)\<close>: only a sequence has a length.\<close>

fun py_len :: "pyobj \<Rightarrow> error + nat" where
  "py_len (PySeq xs) = Inr (length xs)"
| "py_len x = Inl TypeError"

text \<open>
  \<^verbatim>\<open>x < 0\<close> in Python 2: \<open>None\<close> is smaller than every number, a tuple or list is
  larger than every number.
\<close>

fun py_lt0 :: "pyobj \<Rightarrow> bool" where
  "py_lt0 PyNone = True"
| "py_lt0 (PyInt i) = (i < 0)"
| "py_lt0 (PySeq xs) = False"

text \<open>Truth value of an object, as \<^verbatim>\<open>if x:\<close> takes it.\<close>

fun py_truthy :: "pyobj \<Rightarrow> bool" where
  "py_truthy PyNone = False"
| "py_truthy (PyInt i) = (i \<noteq> 0)"
| "py_truthy (PySeq xs) = (xs \<noteq> [])"

text \<open>\<^verbatim>\<open>x[k]\<close> on an object.\<close>

fun py_getitem :: "pyobj \<Rightarrow> nat \<Rightarrow> error + pyobj" where
  "py_getitem (PySeq xs) k = (if k < length xs then Inr (xs ! k) else Inl IndexError)"
| "py_getitem x k = Inl TypeError"

text \<open>An object used where numpy needs an integer.\<close>

fun as_int :: "pyobj \<Rightarrow> error + int" where
  "as_int (PyInt i) = Inr i"
| "as_int x = Inl TypeError"

subsection \<open>Slices of a one-dimensional array\<close>

text \<open>
  A slice bound is clipped into \<open>0..len\<close> after a negative bound has been counted
  from the end; a missing bound is the start or the end.
\<close>

definition slice_bound :: "nat \<Rightarrow> int \<Rightarrow> nat" where
  "slice_bound n i = (if i < 0 then nat (max 0 (int n + i)) else min n (nat i))"

definition slice_range :: "nat \<Rightarrow> int option \<Rightarrow> int option \<Rightarrow> nat \<times> nat" where
  "slice_range n start stop =
     (let s = (case start of None \<Rightarrow> 0 | Some i \<Rightarrow> slice_bound n i);
          e = (case stop of None \<Rightarrow> n | Some i \<Rightarrow> slice_bound n i)
      in (s, e - s))"

text \<open>\<^verbatim>\<open>vector[start:stop]\<close>: the elements from the start bound, as many as the range holds.\<close>

definition py_slice :: "'a list \<Rightarrow> int option \<Rightarrow> int option \<Rightarrow> 'a list" where
  "py_slice xs start stop =
     (case slice_range (length xs) start stop of (s, m) \<Rightarrow> take m (drop s xs))"

text \<open>
  \<^verbatim>\<open>vector[start:stop] = vals\<close>: numpy never resizes. The values must have the length
  of the slice, or length one (broadcast); anything else raises \<open>ValueError\<close>.
\<close>

definition np_setslice ::
  "'a list \<Rightarrow> int option \<Rightarrow> int option \<Rightarrow> 'a list \<Rightarrow> error + 'a list" where
  "np_setslice xs start stop vals =
     (case slice_range (length xs) start stop of (s, m) \<Rightarrow>
        if length vals = m then Inr (take s xs @ vals @ drop (s + m) xs)
        else if length vals = 1 then Inr (take s xs @ replicate m (hd vals) @ drop (s + m) xs)
        else Inl ValueError)"

text \<open>\<^verbatim>\<open>vector[i]\<close> with an integer: out of range raises \<open>IndexError\<close>.\<close>

definition np_getitem :: "'a list \<Rightarrow> int \<Rightarrow> error + 'a" where
  "np_getitem xs i =
     (if 0 \<le> i \<and> i < int (length xs) then Inr (xs ! nat i)
      else if i < 0 \<and> - int (length xs) \<le> i then Inr (xs ! nat (int (length xs) + i))
      else Inl IndexError)"

subsection \<open>Floats\<close>

text \<open>
  The quotient of an integer by \<^verbatim>\<open>float(n)\<close> on numpy scalars. A zero divisor raises
  nothing: numpy returns an infinity or NaN (and emits a warning).
\<close>

definition np_true_divide :: "int \<Rightarrow> nat \<Rightarrow> npfloat" where
  "np_true_divide a n =
     (if n = 0 then (if 0 < a then PosInf else if a < 0 then NegInf else NaN)
      else Finite (of_int a / of_nat n))"

text \<open>
  Storing a float into an integer array is a C cast: the fraction is dropped (rounding
  toward zero). The cast of a non-finite value is what the x86-64 conversion
  instruction yields.
\<close>

definition nan_as_int :: int where
  "nan_as_int = - (2 ^ 63)"

fun astype_int :: "npfloat \<Rightarrow> int" where
  "astype_int (Finite r) = (if 0 \<le> r then \<lfloor>r\<rfloor> else \<lceil>r\<rceil>)"
| "astype_int x = nan_as_int"

definition np_average :: "int list \<Rightarrow> npfloat" where
  "np_average xs = np_true_divide (sum_list xs) (length xs)"

text \<open>
  \<^verbatim>\<open>np.median\<close>: the middle element of the sorted values, or the mean of the two
  middle ones; NaN on no values.
\<close>

definition np_median :: "int list \<Rightarrow> npfloat" where
  "np_median xs =
     (let s = sort xs; n = length xs; index = n div 2
      in if n = 0 then NaN
         else if n mod 2 = 1 then Finite (of_int (s ! index))
         else np_average (py_slice s (Some (int index - 1)) (Some (int index + 1))))"

text \<open>The built-ins \<^verbatim>\<open>max\<close> and \<^verbatim>\<open>min\<close> raise \<open>ValueError\<close> on an empty sequence.\<close>

fun py_max :: "int list \<Rightarrow> error + int" where
  "py_max [] = Inl ValueError"
| "py_max (x # xs) = Inr (fold max xs x)"

fun py_min :: "int list \<Rightarrow> error + int" where
  "py_min [] = Inl ValueError"
| "py_min (x # xs) = Inr (fold min xs x)"

section \<open>Private utility functions\<close>

subsection \<open>\<^verbatim>\<open>__create_vector\<close>\<close>

text \<open>
  \<^verbatim>\<open>vector[:pad_tuple[0]] = before_val\<close>, then, only for a positive after width,
  \<^verbatim>\<open>vector[-pad_tuple[1]:] = after_val\<close>.

  The two values are arrays. For reflect and wrap they are views into \<open>vector\<close>
  itself, so what the second assignment stores is read after the first assignment
  has been made. A value is therefore a function of the current contents of the
  vector; a value that is an array of its own is a constant function. An assignment
  whose source overlaps its own destination reads the source first.
\<close>

definition create_vector ::
  "int list \<Rightarrow> nat \<times> nat \<Rightarrow> (int list \<Rightarrow> int list) \<Rightarrow> (int list \<Rightarrow> int list)
     \<Rightarrow> error + int list" where
  "create_vector vector pad_tuple before_val after_val =
     (case np_setslice vector None (Some (int (fst pad_tuple))) (before_val vector) of
        Inl e \<Rightarrow> Inl e
      | Inr v1 \<Rightarrow>
          if snd pad_tuple > 0
          then np_setslice v1 (Some (- int (snd pad_tuple))) None (after_val v1)
          else Inr v1)"

subsection \<open>\<^verbatim>\<open>__validate_tuple\<close>\<close>

text \<open>
  Lines 82 to 95: the three tests on \<open>pad_width\<close>, each of which may set \<open>pw\<close>.
  Every test reads \<^verbatim>\<open>pad_width[0]\<close> once \<open>pad_width\<close> is known to be a tuple or
  list, so an empty one raises \<open>IndexError\<close> in the first test.
\<close>

definition broadcast_pw :: "nat \<Rightarrow> pyobj \<Rightarrow> error + pyobj list option" where
  "broadcast_pw shapelen pad_width =
     (case pad_width of
        PySeq [] \<Rightarrow> Inl IndexError
      | PySeq (x # xs) \<Rightarrow>
          (let pw0 = None;
               pw1 = (if is_seq x \<and> length (x # xs) = shapelen
                      then Some (x # xs) else pw0);
               pw2 = (if is_num x \<and> length (x # xs) = 1
                      then Some (replicate shapelen (PySeq [x, x])) else pw1);
               pw3 = (if is_num x \<and> length (x # xs) = 2
                      then Some (replicate shapelen pad_width) else pw2)
           in Inr pw3)
      | _ \<Rightarrow> Inr None)"

text \<open>
  Lines 98 to 102: the loop over the pairs. The first argument is the whole \<open>pw\<close>,
  which the error of line 100 carries.
\<close>

fun check_pairs :: "nat \<Rightarrow> pyobj list \<Rightarrow> pyobj list \<Rightarrow> error + unit" where
  "check_pairs shapelen pw [] = Inr ()"
| "check_pairs shapelen pw (i # rest) =
     (case py_len i of
        Inl e \<Rightarrow> Inl e
      | Inr n \<Rightarrow>
          if n \<noteq> 2 then Inl (PadWidthWrongNumberOfValues shapelen (PySeq pw))
          else (case i of
                  PySeq [i0, i1] \<Rightarrow>
                    if py_lt0 i0 \<or> py_lt0 i1 then Inl NegativePadWidth
                    else check_pairs shapelen pw rest
                | _ \<Rightarrow> Inl TypeError))"

definition validate_tuple :: "ndarray \<Rightarrow> pyobj \<Rightarrow> error + pyobj list" where
  "validate_tuple vector pad_width =
     (let shapelen = length (shape vector) in
      case broadcast_pw shapelen pad_width of
        Inl e \<Rightarrow> Inl e
      | Inr None \<Rightarrow> Inl (PadWidthWrongNumberOfValues shapelen pad_width)
      | Inr (Some pw) \<Rightarrow>
          (case check_pairs shapelen pw pw of
             Inl e \<Rightarrow> Inl e
           | Inr u \<Rightarrow> Inr pw))"


subsection \<open>Sequencing of calls that may raise\<close>

definition bind_err :: "error + 'a \<Rightarrow> ('a \<Rightarrow> error + 'b) \<Rightarrow> error + 'b" where
  "bind_err m f = (case m of Inl e \<Rightarrow> Inl e | Inr x \<Rightarrow> f x)"

subsection \<open>n-dimensional arrays\<close>

text \<open>
  An array is its shape and its elements in C order (last axis fastest), as numpy
  stores them. \<open>indices\<close> lists the index tuples of a shape in that order,
  \<open>ravel_index\<close> is the position of an index tuple.
\<close>

fun indices :: "nat list \<Rightarrow> nat list list" where
  "indices [] = [[]]"
| "indices (n # ns) = concat (map (\<lambda>i. map ((#) i) (indices ns)) [0..<n])"

fun ravel_index :: "nat list \<Rightarrow> nat list \<Rightarrow> nat" where
  "ravel_index (n # ns) (i # ind) = i * prod_list ns + ravel_index ns ind"
| "ravel_index ns ind = 0"

definition item :: "ndarray \<Rightarrow> nat list \<Rightarrow> int" where
  "item arr ind = data arr ! ravel_index (shape arr) ind"

definition well_formed :: "ndarray \<Rightarrow> bool" where
  "well_formed arr = (length (data arr) = prod_list (shape arr))"

text \<open>An index tuple that lies inside a shape.\<close>

definition valid_index :: "nat list \<Rightarrow> nat list \<Rightarrow> bool" where
  "valid_index shp ind = list_all2 (\<lambda>i n. i < n) ind shp"

subsection \<open>\<^verbatim>\<open>np.apply_along_axis\<close>\<close>

text \<open>
  The one-dimensional line of \<open>arr\<close> along \<open>axis\<close> through the index tuple \<open>ind\<close>.
\<close>

definition line_of :: "ndarray \<Rightarrow> nat \<Rightarrow> nat list \<Rightarrow> int list" where
  "line_of arr axis ind = map (\<lambda>j. item arr (ind[axis := j])) [0..<shape arr ! axis]"

fun run_lines :: "(int list \<Rightarrow> error + int list) \<Rightarrow> int list list \<Rightarrow> error + int list list" where
  "run_lines func1d [] = Inr []"
| "run_lines func1d (v # vs) =
     (case func1d v of
        Inl e \<Rightarrow> Inl e
      | Inr r \<Rightarrow> (case run_lines func1d vs of Inl e \<Rightarrow> Inl e | Inr rs \<Rightarrow> Inr (r # rs)))"

text \<open>
  numpy calls \<open>func1d\<close> on a view of every line along \<open>axis\<close>, the positions on the
  other axes running in C order from all zeros. The generators of this module
  change the view in place and return it, so the array holds their results.
  The lines of one axis are disjoint. An array with no line along the axis (another
  axis of length 0) makes numpy raise on the first position.
\<close>

definition apply_along_axis ::
  "(int list \<Rightarrow> error + int list) \<Rightarrow> nat \<Rightarrow> ndarray \<Rightarrow> error + ndarray" where
  "apply_along_axis func1d axis arr =
     (let holdshape = (shape arr)[axis := 1];
          inds = indices holdshape
      in if inds = [] then Inl IndexError
         else bind_err (run_lines func1d (map (line_of arr axis) inds)) (\<lambda>res.
           Inr (arr\<lparr>data :=
                  map (\<lambda>ind. res ! ravel_index holdshape (ind[axis := 0]) ! (ind ! axis))
                      (indices (shape arr))\<rparr>)))"

subsection \<open>\<^verbatim>\<open>__loop_across\<close>\<close>

text \<open>
  Lines 118 to 121 add the two widths of a pair and add a width to a length, which
  needs integer widths.
\<close>

fun int_pairs :: "pyobj list \<Rightarrow> error + (nat \<times> nat) list" where
  "int_pairs [] = Inr []"
| "int_pairs (PySeq [PyInt b, PyInt a] # rest) =
     bind_err (int_pairs rest) (\<lambda>ps. Inr ((nat b, nat a) # ps))"
| "int_pairs (x # rest) = Inl TypeError"

text \<open>
  Lines 118 to 124: the enlarged array of zeros with \<open>nmatrix\<close> copied to the offsets.
\<close>

definition in_slices :: "nat list \<Rightarrow> nat list \<Rightarrow> nat list \<Rightarrow> bool" where
  "in_slices offsets shp ind =
     list_all (\<lambda>(i, off, n). off \<le> i \<and> i < off + n) (zip ind (zip offsets shp))"

definition place :: "ndarray \<Rightarrow> (nat \<times> nat) list \<Rightarrow> ndarray" where
  "place nmatrix pad_width =
     (let total_dim_increase = map (\<lambda>(b, a). b + a) pad_width;
          offsets = map fst pad_width;
          new_shape = map2 (+) (shape nmatrix) total_dim_increase
      in \<lparr>shape = new_shape,
          data = map (\<lambda>ind. if in_slices offsets (shape nmatrix) ind
                            then item nmatrix (map2 (-) ind offsets) else 0)
                     (indices new_shape)\<rparr>)"

type_synonym generator =
  "int list \<Rightarrow> nat \<times> nat \<Rightarrow> nat \<Rightarrow> npfloat list \<Rightarrow> npfloat list \<Rightarrow> kwargs \<Rightarrow> error + int list"

text \<open>
  Lines 126 to 136: one \<open>apply_along_axis\<close> per axis, in rank order, on the array that
  the earlier axes have already filled. The buffers \<open>bvec\<close> and \<open>avec\<close> are allocated
  once per axis; a generator that uses them overwrites all of a buffer before it
  reads it, so every line sees them as if fresh.
\<close>

fun loop_axes ::
  "generator \<Rightarrow> (nat \<times> nat) list \<Rightarrow> kwargs \<Rightarrow> nat list \<Rightarrow> ndarray \<Rightarrow> error + ndarray" where
  "loop_axes function pad_width kw [] newmat = Inr newmat"
| "loop_axes function pad_width kw (iaxis # rank) newmat =
     (let bvec = replicate (fst (pad_width ! iaxis)) (Finite 0);
          avec = replicate (snd (pad_width ! iaxis)) (Finite 0)
      in bind_err
           (apply_along_axis (\<lambda>vector. function vector (pad_width ! iaxis) iaxis bvec avec kw)
              iaxis newmat)
           (loop_axes function pad_width kw rank))"

text \<open>
  A zero-dimensional array passes the validation with no pair at all and then fails
  at line 124: numpy refuses to index it with the empty list of slices.
\<close>

definition loop_across :: "ndarray \<Rightarrow> pyobj \<Rightarrow> generator \<Rightarrow> kwargs \<Rightarrow> error + ndarray" where
  "loop_across nmatrix pad_width function kw =
     bind_err (if py_truthy (kw_stat_len kw)
               then bind_err (validate_tuple nmatrix (kw_stat_len kw)) (\<lambda>sl. Inr (PySeq sl))
               else Inr PyNone) (\<lambda>sl.
     bind_err (validate_tuple nmatrix pad_width) (\<lambda>pw.
     bind_err (int_pairs pw) (\<lambda>pad_width.
       if shape nmatrix = [] then Inl IndexError
       else loop_axes function pad_width (kw\<lparr>kw_stat_len := sl\<rparr>)
              [0..<length (shape nmatrix)] (place nmatrix pad_width))))"

section \<open>The edge-vector generators\<close>

subsection \<open>\<^verbatim>\<open>__create_stat_vectors\<close>\<close>

text \<open>
  The window of a statistic on each side. Without \<open>stat_len\<close> both windows are
  \<^verbatim>\<open>vector[pad_tuple[0]:pt1]\<close>, where \<open>pt1\<close> is \<open>None\<close> for an after width of 0.
  With \<open>stat_len\<close> a side of width 0 gets \<^verbatim>\<open>np.arange(1)\<close>, and a side of positive
  width the slice next to it; the length of that slice is read only then.
\<close>

definition create_stat_vectors ::
  "int list \<Rightarrow> nat \<times> nat \<Rightarrow> nat \<Rightarrow> kwargs \<Rightarrow> error + (int list \<times> int list)" where
  "create_stat_vectors vector pad_tuple iaxis kw =
     (let p0 = int (fst pad_tuple);
          p1 = int (snd pad_tuple);
          pt1 = (if - p1 = 0 then None else Some (- p1));
          sbvec = py_slice vector (Some p0) pt1;
          savec = py_slice vector (Some p0) pt1
      in if py_truthy (kw_stat_len kw) then
           bind_err (py_getitem (kw_stat_len kw) iaxis) (\<lambda>stat_len.
           bind_err (if p0 > 0
                     then bind_err (py_getitem stat_len 0) (\<lambda>s0.
                          bind_err (as_int s0) (\<lambda>n0.
                            Inr (py_slice vector (Some p0) (Some (p0 + n0)))))
                     else Inr [0]) (\<lambda>sbvec.
           bind_err (if p1 > 0
                     then bind_err (py_getitem stat_len 1) (\<lambda>s1.
                          bind_err (as_int s1) (\<lambda>n1.
                            Inr (py_slice vector (Some (- p1 - n1)) (Some (- p1)))))
                     else Inr [0]) (\<lambda>savec.
             Inr (sbvec, savec))))
         else Inr (sbvec, savec))"

text \<open>
  \<^verbatim>\<open>bvec[:] = value\<close> fills the float buffer; the assignment of the buffer into the
  integer vector casts every element.
\<close>

definition fill :: "npfloat list \<Rightarrow> npfloat \<Rightarrow> npfloat list" where
  "fill buf x = map (\<lambda>y. x) buf"

definition of_buffer :: "npfloat list \<Rightarrow> int list \<Rightarrow> int list" where
  "of_buffer buf vector = map astype_int buf"

subsection \<open>\<^verbatim>\<open>__maximum\<close>, \<^verbatim>\<open>__minimum\<close>, \<^verbatim>\<open>__median\<close>, \<^verbatim>\<open>__mean\<close>\<close>

definition maximum_gen :: generator where
  "maximum_gen vector pad_tuple iaxis bvec avec kw =
     bind_err (create_stat_vectors vector pad_tuple iaxis kw) (\<lambda>(sbvec, savec).
     bind_err (py_max sbvec) (\<lambda>mb.
     bind_err (py_max savec) (\<lambda>ma.
       create_vector vector pad_tuple
         (of_buffer (fill bvec (Finite (of_int mb))))
         (of_buffer (fill avec (Finite (of_int ma)))))))"

definition minimum_gen :: generator where
  "minimum_gen vector pad_tuple iaxis bvec avec kw =
     bind_err (create_stat_vectors vector pad_tuple iaxis kw) (\<lambda>(sbvec, savec).
     bind_err (py_min sbvec) (\<lambda>mb.
     bind_err (py_min savec) (\<lambda>ma.
       create_vector vector pad_tuple
         (of_buffer (fill bvec (Finite (of_int mb))))
         (of_buffer (fill avec (Finite (of_int ma)))))))"

definition median_gen :: generator where
  "median_gen vector pad_tuple iaxis bvec avec kw =
     bind_err (create_stat_vectors vector pad_tuple iaxis kw) (\<lambda>(sbvec, savec).
       create_vector vector pad_tuple
         (of_buffer (fill bvec (np_median sbvec)))
         (of_buffer (fill avec (np_median savec))))"

definition mean_gen :: generator where
  "mean_gen vector pad_tuple iaxis bvec avec kw =
     bind_err (create_stat_vectors vector pad_tuple iaxis kw) (\<lambda>(sbvec, savec).
       create_vector vector pad_tuple
         (of_buffer (fill bvec (np_average sbvec)))
         (of_buffer (fill avec (np_average savec))))"

subsection \<open>\<^verbatim>\<open>__constant\<close>\<close>

definition constant_gen :: generator where
  "constant_gen vector pad_tuple iaxis bvec avec kw =
     bind_err (py_getitem (kw_constant_values kw) iaxis) (\<lambda>nconstant.
     bind_err (py_getitem nconstant 0) (\<lambda>c0.
     bind_err (as_int c0) (\<lambda>n0.
     bind_err (py_getitem nconstant 1) (\<lambda>c1.
     bind_err (as_int c1) (\<lambda>n1.
       create_vector vector pad_tuple
         (of_buffer (fill bvec (Finite (of_int n0))))
         (of_buffer (fill avec (Finite (of_int n1)))))))))"

subsection \<open>\<^verbatim>\<open>__linear_ramp\<close>\<close>

text \<open>
  Lines 219 to 222 compute both deltas first, each a quotient by the float of the pad
  width of its side, with no test of that width. Each line reads the vector before
  the end value.
\<close>

definition ramp_deltas ::
  "int list \<Rightarrow> nat \<times> nat \<Rightarrow> pyobj \<Rightarrow> error + (npfloat \<times> npfloat)" where
  "ramp_deltas vector pad_tuple end_value =
     bind_err (np_getitem vector (int (fst pad_tuple))) (\<lambda>v0.
     bind_err (py_getitem end_value 0) (\<lambda>x0.
     bind_err (as_int x0) (\<lambda>e0.
     bind_err (np_getitem vector (- int (snd pad_tuple) - 1)) (\<lambda>v1.
     bind_err (py_getitem end_value 1) (\<lambda>x1.
     bind_err (as_int x1) (\<lambda>e1.
       Inr (np_true_divide (v0 - e0) (fst pad_tuple),
            np_true_divide (v1 - e1) (snd pad_tuple))))))))"

text \<open>\<^verbatim>\<open>i*delta\<close> and \<^verbatim>\<open>x + y\<close> with an integer on the left, in IEEE arithmetic.\<close>

fun np_times :: "nat \<Rightarrow> npfloat \<Rightarrow> npfloat" where
  "np_times i (Finite d) = Finite (of_nat i * d)"
| "np_times i NaN = NaN"
| "np_times i x = (if i = 0 then NaN else x)"

fun np_plus :: "int \<Rightarrow> npfloat \<Rightarrow> npfloat" where
  "np_plus e (Finite d) = Finite (of_int e + d)"
| "np_plus e x = x"

text \<open>
  Lines 224 to 227: \<open>n\<close> copies of the end value in the vector's integer type, then
  element \<open>i\<close> becomes itself plus \<open>i*delta\<close>, cast back on the store.
\<close>

definition ramp :: "nat \<Rightarrow> int \<Rightarrow> npfloat \<Rightarrow> int list" where
  "ramp n e delta = map (\<lambda>i. astype_int (np_plus e (np_times i delta))) [0..<n]"

definition linear_ramp_gen :: generator where
  "linear_ramp_gen vector pad_tuple iaxis bvec avec kw =
     bind_err (py_getitem (kw_end_value kw) iaxis) (\<lambda>end_value.
     bind_err (ramp_deltas vector pad_tuple end_value) (\<lambda>(before_delta, after_delta).
     bind_err (py_getitem end_value 0) (\<lambda>x0.
     bind_err (as_int x0) (\<lambda>e0.
     bind_err (py_getitem end_value 1) (\<lambda>x1.
     bind_err (as_int x1) (\<lambda>e1.
       let before_vector = ramp (fst pad_tuple) e0 before_delta;
           after_vector = rev (ramp (snd pad_tuple) e1 after_delta)
       in create_vector vector pad_tuple (\<lambda>v. before_vector) (\<lambda>v. after_vector)))))))"

subsection \<open>\<^verbatim>\<open>__reflect\<close> and \<^verbatim>\<open>__wrap\<close>\<close>

text \<open>Both borders are reversed views into the vector.\<close>

definition reflect_gen :: generator where
  "reflect_gen vector pad_tuple iaxis bvec avec kw =
     (let p0 = int (fst pad_tuple); p1 = int (snd pad_tuple)
      in create_vector vector pad_tuple
           (\<lambda>v. rev (py_slice v (Some (p0 + 1)) (Some (2 * p0 + 1))))
           (\<lambda>v. rev (py_slice v (Some (- 2 * p1 - 1)) (Some (- p1 - 1)))))"

text \<open>Both borders are views into the vector.\<close>

definition wrap_gen :: generator where
  "wrap_gen vector pad_tuple iaxis bvec avec kw =
     (let p0 = int (fst pad_tuple); p1 = int (snd pad_tuple)
      in create_vector vector pad_tuple
           (\<lambda>v. py_slice v (Some (- (p1 + p0))) (Some (- p1)))
           (\<lambda>v. py_slice v (Some p0) (Some (p0 + p1))))"

section \<open>Public functions\<close>

definition no_kw :: kwargs where
  "no_kw = \<lparr>kw_stat_len = PyNone, kw_constant_values = PyNone, kw_end_value = PyNone\<rparr>"

definition maximum :: "ndarray \<Rightarrow> pyobj \<Rightarrow> pyobj \<Rightarrow> error + ndarray" where
  "maximum matrix pad_width stat_len =
     loop_across matrix pad_width maximum_gen (no_kw\<lparr>kw_stat_len := stat_len\<rparr>)"

definition minimum :: "ndarray \<Rightarrow> pyobj \<Rightarrow> pyobj \<Rightarrow> error + ndarray" where
  "minimum matrix pad_width stat_len =
     loop_across matrix pad_width minimum_gen (no_kw\<lparr>kw_stat_len := stat_len\<rparr>)"

definition median :: "ndarray \<Rightarrow> pyobj \<Rightarrow> pyobj \<Rightarrow> error + ndarray" where
  "median matrix pad_width stat_len =
     loop_across matrix pad_width median_gen (no_kw\<lparr>kw_stat_len := stat_len\<rparr>)"

definition mean :: "ndarray \<Rightarrow> pyobj \<Rightarrow> pyobj \<Rightarrow> error + ndarray" where
  "mean matrix pad_width stat_len =
     loop_across matrix pad_width mean_gen (no_kw\<lparr>kw_stat_len := stat_len\<rparr>)"

definition "constant" :: "ndarray \<Rightarrow> pyobj \<Rightarrow> pyobj \<Rightarrow> error + ndarray" where
  "constant matrix pad_width constant_values =
     bind_err (validate_tuple matrix constant_values) (\<lambda>cv.
       loop_across matrix pad_width constant_gen (no_kw\<lparr>kw_constant_values := PySeq cv\<rparr>))"

definition linear_ramp :: "ndarray \<Rightarrow> pyobj \<Rightarrow> pyobj \<Rightarrow> error + ndarray" where
  "linear_ramp matrix pad_width end_value =
     bind_err (validate_tuple matrix end_value) (\<lambda>ev.
       loop_across matrix pad_width linear_ramp_gen (no_kw\<lparr>kw_end_value := PySeq ev\<rparr>))"

definition reflect :: "ndarray \<Rightarrow> pyobj \<Rightarrow> error + ndarray" where
  "reflect matrix pad_width = loop_across matrix pad_width reflect_gen no_kw"

definition wrap :: "ndarray \<Rightarrow> pyobj \<Rightarrow> error + ndarray" where
  "wrap matrix pad_width = loop_across matrix pad_width wrap_gen no_kw"

section \<open>Notions used in the statements\<close>

subsection \<open>Results of a padding call\<close>

text \<open>
  The normalized pad width of a call: what \<open>__validate_tuple\<close> returns for the
  \<open>pad_width\<close> argument, as pairs of natural numbers \<open>(before, after)\<close>, one per axis.
\<close>

definition normalized_pad_width :: "ndarray \<Rightarrow> pyobj \<Rightarrow> error + (nat \<times> nat) list" where
  "normalized_pad_width matrix pad_width = bind_err (validate_tuple matrix pad_width) int_pairs"

definition padded_shape :: "nat list \<Rightarrow> (nat \<times> nat) list \<Rightarrow> nat list" where
  "padded_shape shp pws = map2 (\<lambda>n (before, after). n + before + after) shp pws"

text \<open>
  \<^verbatim>\<open>padded[before[0] : before[0] + shp[0], ...]\<close>: the sub-array of the given shape
  that starts at the before offsets.
\<close>

definition slice_back :: "ndarray \<Rightarrow> (nat \<times> nat) list \<Rightarrow> nat list \<Rightarrow> ndarray" where
  "slice_back padded pws shp =
     \<lparr>shape = shp,
      data = map (\<lambda>ind. item padded (map2 (+) (map fst pws) ind)) (indices shp)\<rparr>"

text \<open>The part of a line between a before border of \<open>p0\<close> and an after border of \<open>p1\<close> elements.\<close>

definition interior :: "'a list \<Rightarrow> nat \<Rightarrow> nat \<Rightarrow> 'a list" where
  "interior v p0 p1 = take (length v - (p0 + p1)) (drop p0 v)"

text \<open>
  A generator keeps the interior when the line it returns has the length of the line
  it was given and the same elements between the two borders.
\<close>

definition keeps_interior :: "generator \<Rightarrow> bool" where
  "keeps_interior g = (\<forall>v pt iaxis bvec avec kw v'.
      g v pt iaxis bvec avec kw = Inr v' \<longrightarrow>
        length v' = length v \<and> (\<forall>i. fst pt \<le> i \<and> i + snd pt < length v \<longrightarrow> v' ! i = v ! i))"


subsection \<open>Shapes of a specification\<close>

fun is_pair :: "pyobj \<Rightarrow> bool" where
  "is_pair (PySeq [a, b]) = True"
| "is_pair x = False"

text \<open>A pair with a component that the test \<^verbatim>\<open>i[0] < 0 or i[1] < 0\<close> takes as negative.\<close>

fun negative_pair :: "pyobj \<Rightarrow> bool" where
  "negative_pair (PySeq [a, b]) = (py_lt0 a \<or> py_lt0 b)"
| "negative_pair x = False"

text \<open>
  A specification normalizes to a per-axis pair list with a negative component: the
  broadcast of lines 82 to 95 gives a list of pairs, one of which is negative.
\<close>

definition normalizes_negative :: "ndarray \<Rightarrow> pyobj \<Rightarrow> bool" where
  "normalizes_negative matrix spec =
     (case broadcast_pw (length (shape matrix)) spec of
        Inr (Some pw) \<Rightarrow> list_all is_pair pw \<and> list_ex negative_pair pw
      | _ \<Rightarrow> False)"

text \<open>A specification that the validation accepts.\<close>

definition passes :: "ndarray \<Rightarrow> pyobj \<Rightarrow> bool" where
  "passes matrix spec = (case validate_tuple matrix spec of Inr pw \<Rightarrow> True | Inl e \<Rightarrow> False)"






subsection \<open>Expected borders\<close>

text \<open>
  A line treated as circular: the last \<open>p0\<close> elements before it, the first \<open>p1\<close>
  elements after it.
\<close>

definition wrapped :: "'a list \<Rightarrow> nat \<Rightarrow> nat \<Rightarrow> 'a list" where
  "wrapped xs p0 p1 = drop (length xs - p0) xs @ xs @ take p1 xs"




section \<open>Properties of the embedding\<close>

lemma bind_err_Inl [simp]: "bind_err (Inl e) f = Inl e"
  by (simp add: bind_err_def)

lemma bind_err_Inr [simp]: "bind_err (Inr x) f = f x"
  by (simp add: bind_err_def)

lemma bind_err_eq_Inr: "bind_err m f = Inr y \<longleftrightarrow> (\<exists>x. m = Inr x \<and> f x = Inr y)"
  by (cases m) simp_all

lemma bind_err_eq_Inl: "bind_err m f = Inl e \<longleftrightarrow> m = Inl e \<or> (\<exists>x. m = Inr x \<and> f x = Inl e)"
  by (cases m) simp_all

lemma slice_bound_le: "slice_bound n i \<le> n"
  by (auto simp: slice_bound_def max_def)

lemma slice_range_le:
  assumes "slice_range n a b = (s, m)"
  shows "s + m \<le> n"
proof -
  have s: "s = (case a of None \<Rightarrow> 0 | Some i \<Rightarrow> slice_bound n i)"
    and m: "m = (case b of None \<Rightarrow> n | Some i \<Rightarrow> slice_bound n i) - s"
    using assms by (auto simp: slice_range_def Let_def)
  have "s \<le> n" using s slice_bound_le by (cases a) simp_all
  moreover have "(case b of None \<Rightarrow> n | Some i \<Rightarrow> slice_bound n i) \<le> n"
    using slice_bound_le by (cases b) simp_all
  ultimately show ?thesis using m by linarith
qed

lemma np_setslice_length:
  assumes "np_setslice xs a b vs = Inr ys"
  shows "length ys = length xs"
proof -
  obtain s m where sm: "slice_range (length xs) a b = (s, m)" by fastforce
  have le: "s + m \<le> length xs" using sm by (rule slice_range_le)
  show ?thesis using assms le
    by (auto simp: np_setslice_def sm split: if_splits)
qed

lemma np_setslice_nth:
  assumes "np_setslice xs a b vs = Inr ys"
    and "slice_range (length xs) a b = (s, m)"
    and "i < s \<or> s + m \<le> i"
  shows "ys ! i = xs ! i"
proof -
  have le: "s + m \<le> length xs" using assms(2) by (rule slice_range_le)
  have ys: "ys = take s xs @ vs @ drop (s + m) xs \<and> length vs = m
      \<or> ys = take s xs @ replicate m (hd vs) @ drop (s + m) xs"
    using assms(1,2) by (auto simp: np_setslice_def split: if_splits)
  show ?thesis
  proof (cases "i < s")
    case True
    then show ?thesis using ys le by (auto simp: nth_append)
  next
    case False
    then have "s + m \<le> i" using assms(3) by simp
    then show ?thesis using ys le by (auto simp: nth_append)
  qed
qed

lemma slice_range_before: "slice_range n None (Some (int p)) = (0, min n p)"
  by (simp add: slice_range_def slice_bound_def)

lemma slice_range_after: "0 < p \<Longrightarrow> slice_range n (Some (- int p)) None = (n - p, min n p)"
  by (auto simp: slice_range_def slice_bound_def Let_def)

lemma create_vector_length:
  assumes "create_vector v pt bv av = Inr v'"
  shows "length v' = length v"
  using assms
  by (auto simp: create_vector_def split: sum.splits if_splits dest!: np_setslice_length)

lemma create_vector_interior:
  assumes "create_vector v pt bv av = Inr v'"
    and "fst pt \<le> i" and "i + snd pt < length v"
  shows "v' ! i = v ! i"
proof -
  obtain v1 where v1: "np_setslice v None (Some (int (fst pt))) (bv v) = Inr v1"
    and v': "v' = v1 \<or> (snd pt > 0 \<and> np_setslice v1 (Some (- int (snd pt))) None (av v1) = Inr v')"
    using assms(1) by (auto simp: create_vector_def split: sum.splits if_splits)
  have len1: "length v1 = length v" using v1 by (rule np_setslice_length)
  have a: "v1 ! i = v ! i"
    using np_setslice_nth[OF v1 slice_range_before] assms(2) by simp
  from v' show ?thesis
  proof
    assume "v' = v1" then show ?thesis using a by simp
  next
    assume h: "snd pt > 0 \<and> np_setslice v1 (Some (- int (snd pt))) None (av v1) = Inr v'"
    have "v' ! i = v1 ! i"
      using np_setslice_nth[OF conjunct2[OF h] slice_range_after[OF conjunct1[OF h]]] assms(3) len1 by simp
    then show ?thesis using a by simp
  qed
qed

lemma keeps_interiorI:
  assumes "\<And>v pt iaxis bvec avec kw v'. g v pt iaxis bvec avec kw = Inr v' \<Longrightarrow>
     \<exists>bv av. create_vector v pt bv av = Inr v'"
  shows "keeps_interior g"
  unfolding keeps_interior_def
  using assms create_vector_length create_vector_interior by metis

lemma keeps_maximum: "keeps_interior maximum_gen"
  by (rule keeps_interiorI) (auto simp: maximum_gen_def bind_err_eq_Inr)

lemma keeps_minimum: "keeps_interior minimum_gen"
  by (rule keeps_interiorI) (auto simp: minimum_gen_def bind_err_eq_Inr)

lemma keeps_median: "keeps_interior median_gen"
  by (rule keeps_interiorI) (auto simp: median_gen_def bind_err_eq_Inr)

lemma keeps_mean: "keeps_interior mean_gen"
  by (rule keeps_interiorI) (auto simp: mean_gen_def bind_err_eq_Inr)

lemma keeps_constant: "keeps_interior constant_gen"
  by (rule keeps_interiorI) (auto simp: constant_gen_def bind_err_eq_Inr)

lemma keeps_linear_ramp: "keeps_interior linear_ramp_gen"
  by (rule keeps_interiorI) (auto simp: linear_ramp_gen_def bind_err_eq_Inr Let_def)

lemma keeps_reflect: "keeps_interior reflect_gen"
  by (rule keeps_interiorI) (auto simp: reflect_gen_def Let_def)

lemma keeps_wrap: "keeps_interior wrap_gen"
  by (rule keeps_interiorI) (auto simp: wrap_gen_def Let_def)

lemma length_concat_const:
  "(\<forall>x\<in>set xs. length (f x) = k) \<Longrightarrow> length (concat (map f xs)) = length xs * k"
  by (induction xs) simp_all

lemma nth_concat_const:
  "(\<forall>x\<in>set xs. length (f x) = k) \<Longrightarrow> i < length xs \<Longrightarrow> j < k
     \<Longrightarrow> concat (map f xs) ! (i * k + j) = f (xs ! i) ! j"
proof (induction xs arbitrary: i)
  case Nil
  then show ?case by simp
next
  case (Cons x xs)
  show ?case
  proof (cases i)
    case 0
    then show ?thesis using Cons.prems by (simp add: nth_append)
  next
    case (Suc i')
    have "concat (map f xs) ! (i' * k + j) = f (xs ! i') ! j"
      using Cons.IH[of i'] Cons.prems Suc by simp
    then show ?thesis using Cons.prems Suc by (simp add: nth_append)
  qed
qed

lemma length_indices: "length (indices shp) = prod_list shp"
proof (induction shp)
  case Nil
  then show ?case by simp
next
  case (Cons n ns)
  have "length (concat (map (\<lambda>i. map ((#) i) (indices ns)) [0..<n])) = length [0..<n] * prod_list ns"
    by (rule length_concat_const) (simp add: Cons.IH)
  then show ?case by simp
qed

lemma valid_index_Nil [simp]: "valid_index [] ind \<longleftrightarrow> ind = []"
  by (simp add: valid_index_def)

lemma valid_index_Cons:
  "valid_index (n # ns) ind \<longleftrightarrow> (\<exists>i is. ind = i # is \<and> i < n \<and> valid_index ns is)"
  by (cases ind) (simp_all add: valid_index_def)

lemma valid_index_length: "valid_index shp ind \<Longrightarrow> length ind = length shp"
  by (simp add: valid_index_def list_all2_lengthD)

lemma valid_index_nth: "valid_index shp ind \<Longrightarrow> k < length shp \<Longrightarrow> ind ! k < shp ! k"
  by (simp add: valid_index_def list_all2_conv_all_nth)

lemma valid_index_iff:
  "valid_index shp ind \<longleftrightarrow> length ind = length shp \<and> (\<forall>k<length shp. ind ! k < shp ! k)"
  by (auto simp: valid_index_def list_all2_conv_all_nth)

lemma ravel_index_less:
  "valid_index shp ind \<Longrightarrow> ravel_index shp ind < prod_list shp"
proof (induction shp arbitrary: ind)
  case Nil
  then show ?case by simp
next
  case (Cons n ns)
  then obtain i "is" where ind: "ind = i # is" "i < n" "valid_index ns is"
    by (auto simp: valid_index_Cons)
  have r: "ravel_index ns is < prod_list ns" using Cons.IH ind(3) by simp
  have "i * prod_list ns + ravel_index ns is < (i + 1) * prod_list ns" using r by simp
  also have "\<dots> \<le> n * prod_list ns" using ind(2) by (intro mult_le_mono1) simp
  finally show ?case using ind(1) by simp
qed

lemma indices_nth_ravel:
  "valid_index shp ind \<Longrightarrow> indices shp ! ravel_index shp ind = ind"
proof (induction shp arbitrary: ind)
  case Nil
  then show ?case by simp
next
  case (Cons n ns)
  then obtain i "is" where ind: "ind = i # is" "i < n" "valid_index ns is"
    by (auto simp: valid_index_Cons)
  have r: "ravel_index ns is < prod_list ns" using ind(3) by (rule ravel_index_less)
  have "concat (map (\<lambda>i. map ((#) i) (indices ns)) [0..<n]) ! (i * prod_list ns + ravel_index ns is)
        = (\<lambda>i. map ((#) i) (indices ns)) ([0..<n] ! i) ! ravel_index ns is"
    by (rule nth_concat_const) (use ind(2) r in \<open>simp_all add: length_indices\<close>)
  then show ?case using ind r Cons.IH[of "is"] by (simp add: length_indices)
qed

lemma ravel_index_nth:
  "k < prod_list shp \<Longrightarrow> ravel_index shp (indices shp ! k) = k"
proof (induction shp arbitrary: k)
  case Nil
  then show ?case by simp
next
  case (Cons n ns)
  let ?P = "prod_list ns"
  have P: "0 < ?P" using Cons.prems by (cases "?P = 0") simp_all
  have d: "k div ?P < n" using Cons.prems P by (simp add: less_mult_imp_div_less mult.commute)
  have m: "k mod ?P < ?P" using P by simp
  have "concat (map (\<lambda>i. map ((#) i) (indices ns)) [0..<n]) ! (k div ?P * ?P + k mod ?P)
        = (\<lambda>i. map ((#) i) (indices ns)) ([0..<n] ! (k div ?P)) ! (k mod ?P)"
    by (rule nth_concat_const) (use d m in \<open>simp_all add: length_indices\<close>)
  then have "indices (n # ns) ! k = (k div ?P) # (indices ns ! (k mod ?P))"
    using d m by (simp add: length_indices)
  then show ?case using Cons.IH[OF m] by simp
qed

lemma valid_index_indices:
  "k < prod_list shp \<Longrightarrow> valid_index shp (indices shp ! k)"
proof (induction shp arbitrary: k)
  case Nil
  then show ?case by simp
next
  case (Cons n ns)
  let ?P = "prod_list ns"
  have P: "0 < ?P" using Cons.prems by (cases "?P = 0") simp_all
  have d: "k div ?P < n" using Cons.prems P by (simp add: less_mult_imp_div_less mult.commute)
  have m: "k mod ?P < ?P" using P by simp
  have "concat (map (\<lambda>i. map ((#) i) (indices ns)) [0..<n]) ! (k div ?P * ?P + k mod ?P)
        = (\<lambda>i. map ((#) i) (indices ns)) ([0..<n] ! (k div ?P)) ! (k mod ?P)"
    by (rule nth_concat_const) (use d m in \<open>simp_all add: length_indices\<close>)
  then have "indices (n # ns) ! k = (k div ?P) # (indices ns ! (k mod ?P))"
    using d m by (simp add: length_indices)
  then show ?case using Cons.IH[OF m] d by (simp add: valid_index_Cons)
qed

lemma item_tabulate:
  assumes "valid_index shp ind"
  shows "item \<lparr>shape = shp, data = map f (indices shp)\<rparr> ind = f ind"
  using ravel_index_less[OF assms] indices_nth_ravel[OF assms]
  by (simp add: item_def length_indices)

lemma data_tabulate:
  assumes "well_formed arr"
  shows "map (item arr) (indices (shape arr)) = data arr"
  using assms
  by (auto simp: list_eq_iff_nth_eq length_indices well_formed_def item_def ravel_index_nth)

lemma run_lines_Inr:
  "run_lines f vs = Inr rs \<Longrightarrow> length rs = length vs \<and> (\<forall>i<length vs. f (vs ! i) = Inr (rs ! i))"
proof (induction vs arbitrary: rs)
  case Nil
  then show ?case by simp
next
  case (Cons v vs)
  then obtain r rs' where r: "f v = Inr r" "run_lines f vs = Inr rs'" "rs = r # rs'"
    by (auto split: sum.splits)
  show ?case using Cons.IH[OF r(2)] r by (auto simp: nth_Cons split: nat.splits)
qed


lemma apply_along_axis_shape:
  "apply_along_axis f k arr = Inr arr' \<Longrightarrow> shape arr' = shape arr"
  by (auto simp: apply_along_axis_def Let_def bind_err_eq_Inr split: if_splits)

lemma length_line_of [simp]: "length (line_of arr k ind) = shape arr ! k"
  by (simp add: line_of_def)

lemma line_of_nth:
  assumes "k < length (shape arr)" "valid_index (shape arr) ind"
  shows "line_of arr k ind ! (ind ! k) = item arr ind"
  using valid_index_nth[OF assms(2,1)] by (simp add: line_of_def)

lemma line_of_update [simp]: "line_of arr k (ind[k := j]) = line_of arr k ind"
  by (simp add: line_of_def)

lemma valid_index_hold:
  assumes "valid_index shp ind"
  shows "valid_index (shp[k := 1]) (ind[k := 0])"
  using assms unfolding valid_index_def by (intro list_all2_update_cong) simp_all

lemma apply_along_axis_item:
  assumes "apply_along_axis f k arr = Inr arr'"
    and "valid_index (shape arr) ind"
  shows "\<exists>v'. f (line_of arr k ind) = Inr v' \<and> item arr' ind = v' ! (ind ! k)"
proof -
  let ?hold = "(shape arr)[k := 1]"
  obtain res where res: "run_lines f (map (line_of arr k) (indices ?hold)) = Inr res"
    and arr': "arr' = arr\<lparr>data := map (\<lambda>ind. res ! ravel_index ?hold (ind[k := 0]) ! (ind ! k))
                      (indices (shape arr))\<rparr>"
    using assms(1) by (auto simp: apply_along_axis_def Let_def bind_err_eq_Inr split: if_splits)
  have v: "valid_index ?hold (ind[k := 0])" using assms(2) by (rule valid_index_hold)
  let ?r = "ravel_index ?hold (ind[k := 0])"
  have r: "?r < length (indices ?hold)" using ravel_index_less[OF v] by (simp add: length_indices)
  have "f (map (line_of arr k) (indices ?hold) ! ?r) = Inr (res ! ?r)"
    using run_lines_Inr[OF res] r by simp
  then have f: "f (line_of arr k ind) = Inr (res ! ?r)"
    using r indices_nth_ravel[OF v] by simp
  have "item arr' ind = res ! ?r ! (ind ! k)"
    using ravel_index_less[OF assms(2)] indices_nth_ravel[OF assms(2)]
    by (simp add: arr' item_def length_indices)
  then show ?thesis using f by blast
qed

lemma apply_along_axis_keeps:
  assumes "apply_along_axis f k arr = Inr arr'"
    and "k < length (shape arr)"
    and "valid_index (shape arr) ind"
    and "\<And>v v'. f v = Inr v' \<Longrightarrow>
           length v' = length v \<and> (\<forall>i. p0 \<le> i \<and> i + p1 < length v \<longrightarrow> v' ! i = v ! i)"
    and "p0 \<le> ind ! k" and "ind ! k + p1 < shape arr ! k"
  shows "item arr' ind = item arr ind"
proof -
  obtain v' where v': "f (line_of arr k ind) = Inr v'" "item arr' ind = v' ! (ind ! k)"
    using apply_along_axis_item[OF assms(1,3)] by blast
  have "v' ! (ind ! k) = line_of arr k ind ! (ind ! k)"
    using assms(4)[OF v'(1)] assms(5,6) by simp
  then show ?thesis using v'(2) line_of_nth[OF assms(2,3)] by simp
qed

lemma loop_axes_shape:
  "loop_axes g pw kw axes m = Inr R \<Longrightarrow> shape R = shape m"
proof (induction axes arbitrary: m)
  case Nil
  then show ?case by simp
next
  case (Cons k axes)
  then obtain m' where m': "apply_along_axis
        (\<lambda>vector. g vector (pw ! k) k (replicate (fst (pw ! k)) (Finite 0))
                     (replicate (snd (pw ! k)) (Finite 0)) kw) k m = Inr m'"
      "loop_axes g pw kw axes m' = Inr R"
    by (auto simp: Let_def bind_err_eq_Inr)
  show ?case using Cons.IH[OF m'(2)] apply_along_axis_shape[OF m'(1)] by simp
qed

lemma loop_axes_keeps:
  assumes "keeps_interior g"
  shows "loop_axes g pw kw axes m = Inr R \<Longrightarrow> valid_index (shape m) ind
     \<Longrightarrow> (\<forall>k\<in>set axes. k < length (shape m) \<and> fst (pw ! k) \<le> ind ! k
                          \<and> ind ! k + snd (pw ! k) < shape m ! k)
     \<Longrightarrow> item R ind = item m ind"
proof (induction axes arbitrary: m)
  case Nil
  then show ?case by simp
next
  case (Cons k axes)
  let ?f = "\<lambda>vector. g vector (pw ! k) k (replicate (fst (pw ! k)) (Finite 0))
                     (replicate (snd (pw ! k)) (Finite 0)) kw"
  obtain m' where m': "apply_along_axis ?f k m = Inr m'" "loop_axes g pw kw axes m' = Inr R"
    using Cons.prems(1) by (auto simp: Let_def bind_err_eq_Inr)
  have sh: "shape m' = shape m" using m'(1) by (rule apply_along_axis_shape)
  have gen: "\<And>v v'. ?f v = Inr v' \<Longrightarrow>
      length v' = length v \<and> (\<forall>i. fst (pw ! k) \<le> i \<and> i + snd (pw ! k) < length v \<longrightarrow> v' ! i = v ! i)"
    using assms unfolding keeps_interior_def by blast
  have k: "k < length (shape m)" "fst (pw ! k) \<le> ind ! k" "ind ! k + snd (pw ! k) < shape m ! k"
    using Cons.prems(3) by simp_all
  have step: "item m' ind = item m ind"
    by (rule apply_along_axis_keeps[OF m'(1) k(1) Cons.prems(2) gen k(2,3)])
  have "item R ind = item m' ind"
    using Cons.IH[OF m'(2)] Cons.prems(2,3) sh by simp
  then show ?case using step by simp
qed

lemma broadcast_pw_length:
  "broadcast_pw n W = Inr (Some pw) \<Longrightarrow> length pw = n"
  by (auto simp: broadcast_pw_def Let_def split: pyobj.splits list.splits if_splits)

lemma validate_tuple_length:
  "validate_tuple A W = Inr pw \<Longrightarrow> length pw = length (shape A)"
  by (auto simp: validate_tuple_def Let_def dest: broadcast_pw_length
           split: sum.splits option.splits)

lemma int_pairs_length: "int_pairs pw = Inr pws \<Longrightarrow> length pws = length pw"
  by (induction pw arbitrary: pws rule: int_pairs.induct) (auto simp: bind_err_eq_Inr)

lemma normalized_length:
  "normalized_pad_width A W = Inr pws \<Longrightarrow> length pws = length (shape A)"
  using validate_tuple_length int_pairs_length
  by (fastforce simp: normalized_pad_width_def bind_err_eq_Inr)

lemma place_shape: "shape (place A pws) = padded_shape (shape A) pws"
  by (auto simp: place_def padded_shape_def Let_def list_eq_iff_nth_eq split_beta)

lemma padded_shape_nth:
  "length pws = length shp \<Longrightarrow> k < length shp \<Longrightarrow>
     padded_shape shp pws ! k = shp ! k + fst (pws ! k) + snd (pws ! k)"
  by (simp add: padded_shape_def split_beta)

lemma length_padded_shape:
  "length pws = length shp \<Longrightarrow> length (padded_shape shp pws) = length shp"
  by (simp add: padded_shape_def)

lemma valid_index_offset:
  assumes "length pws = length shp" "valid_index shp ind"
  shows "valid_index (padded_shape shp pws) (map2 (+) (map fst pws) ind)"
proof -
  have l: "length ind = length shp" using assms(2) by (rule valid_index_length)
  have "map2 (+) (map fst pws) ind ! k < padded_shape shp pws ! k" if "k < length shp" for k
    using that valid_index_nth[OF assms(2) that] l assms(1) by (simp add: padded_shape_nth)
  then show ?thesis using l assms(1) by (simp add: valid_index_iff length_padded_shape)
qed

lemma in_slices_offset:
  assumes "length pws = length shp" "valid_index shp ind"
  shows "in_slices (map fst pws) shp (map2 (+) (map fst pws) ind)"
proof -
  have l: "length ind = length shp" using assms(2) by (rule valid_index_length)
  have "ind ! k < shp ! k" if "k < length shp" for k
    using valid_index_nth[OF assms(2) that] .
  then show ?thesis using l assms(1) by (simp add: in_slices_def list_all_length)
qed

lemma offset_back:
  fixes ind :: "nat list"
  assumes "length offs = length ind"
  shows "map2 (-) (map2 (+) offs ind) offs = ind"
  using assms by (auto simp: list_eq_iff_nth_eq)

lemma place_item:
  assumes "length pws = length (shape A)" "valid_index (shape A) ind"
  shows "item (place A pws) (map2 (+) (map fst pws) ind) = item A ind"
proof -
  let ?ind' = "map2 (+) (map fst pws) ind"
  have v: "valid_index (padded_shape (shape A) pws) ?ind'"
    using assms by (rule valid_index_offset)
  have p: "place A pws = \<lparr>shape = padded_shape (shape A) pws,
      data = map (\<lambda>ind. if in_slices (map fst pws) (shape A) ind
                        then item A (map2 (-) ind (map fst pws)) else 0)
                 (indices (padded_shape (shape A) pws))\<rparr>"
    using place_shape[of A pws] by (simp add: place_def Let_def)
  have "item (place A pws) ?ind' =
     (if in_slices (map fst pws) (shape A) ?ind' then item A (map2 (-) ?ind' (map fst pws)) else 0)"
    unfolding p by (rule item_tabulate[OF v])
  then show ?thesis
    using in_slices_offset[OF assms] offset_back[of "map fst pws" ind]
      valid_index_length[OF assms(2)] assms(1) by simp
qed

lemma loop_across_Inr:
  assumes "loop_across A W g kw = Inr R"
  shows "\<exists>pws kw'. normalized_pad_width A W = Inr pws \<and> shape A \<noteq> []
     \<and> loop_axes g pws kw' [0..<length (shape A)] (place A pws) = Inr R"
  using assms
  by (auto simp: loop_across_def normalized_pad_width_def bind_err_eq_Inr split: if_splits)

lemma loop_across_result:
  assumes "keeps_interior g" "loop_across A W g kw = Inr R"
  shows "\<exists>pws. normalized_pad_width A W = Inr pws
     \<and> shape R = padded_shape (shape A) pws
     \<and> (\<forall>ind. valid_index (shape A) ind \<longrightarrow> item R (map2 (+) (map fst pws) ind) = item A ind)"
proof -
  obtain pws kw' where n: "normalized_pad_width A W = Inr pws"
    and l: "loop_axes g pws kw' [0..<length (shape A)] (place A pws) = Inr R"
    using loop_across_Inr[OF assms(2)] by blast
  have len: "length pws = length (shape A)" using n by (rule normalized_length)
  have sh: "shape R = padded_shape (shape A) pws"
    using loop_axes_shape[OF l] place_shape by simp
  have "item R (map2 (+) (map fst pws) ind) = item A ind" if v: "valid_index (shape A) ind" for ind
  proof -
    let ?ind' = "map2 (+) (map fst pws) ind"
    have v': "valid_index (shape (place A pws)) ?ind'"
      using valid_index_offset[OF len v] place_shape by simp
    have "item R ?ind' = item (place A pws) ?ind'"
    proof (rule loop_axes_keeps[OF assms(1) l v'], intro ballI)
      fix k assume "k \<in> set [0..<length (shape A)]"
      then have k: "k < length (shape A)" by simp
      have "length ind = length (shape A)" using v by (rule valid_index_length)
      then show "k < length (shape (place A pws)) \<and> fst (pws ! k) \<le> ?ind' ! k
          \<and> ?ind' ! k + snd (pws ! k) < shape (place A pws) ! k"
        using k len valid_index_nth[OF v k]
        by (simp add: place_shape length_padded_shape padded_shape_nth)
    qed
    then show ?thesis using place_item[OF len v] by simp
  qed
  then show ?thesis using n sh by blast
qed

lemma slice_back_eq:
  assumes "well_formed A"
    and "\<forall>ind. valid_index (shape A) ind \<longrightarrow> item R (map2 (+) (map fst pws) ind) = item A ind"
  shows "slice_back R pws (shape A) = A"
proof -
  have "map (\<lambda>ind. item R (map2 (+) (map fst pws) ind)) (indices (shape A))
        = map (item A) (indices (shape A))"
    using assms(2) valid_index_indices[of _ "shape A"]
    by (auto simp: list_eq_iff_nth_eq length_indices)
  then show ?thesis using data_tabulate[OF assms(1)] by (simp add: slice_back_def)
qed

lemma np_setslice_total:
  assumes "slice_range (length xs) a b = (s, m)" "length vs = m"
  shows "np_setslice xs a b vs = Inr (take s xs @ vs @ drop (s + m) xs)"
  using assms by (simp add: np_setslice_def)


lemma length_of_buffer [simp]: "length (of_buffer (fill buf x) v) = length buf"
  by (simp add: of_buffer_def fill_def)





lemma length_interior [simp]: "length (interior v p0 p1) = length v - (p0 + p1)"
  by (simp add: interior_def)









lemma length_ramp [simp]: "length (ramp n e d) = n"
  by (simp add: ramp_def)






lemma public_result:
  assumes "maximum A W s = Inr R \<or> minimum A W s = Inr R \<or> median A W s = Inr R
         \<or> mean A W s = Inr R \<or> constant A W c = Inr R \<or> linear_ramp A W e = Inr R
         \<or> reflect A W = Inr R \<or> wrap A W = Inr R"
  shows "\<exists>pws. normalized_pad_width A W = Inr pws
     \<and> shape R = padded_shape (shape A) pws
     \<and> (\<forall>ind. valid_index (shape A) ind \<longrightarrow> item R (map2 (+) (map fst pws) ind) = item A ind)"
  using assms
  by (auto simp: maximum_def minimum_def median_def mean_def constant_def linear_ramp_def
        reflect_def wrap_def bind_err_eq_Inr
      intro: loop_across_result keeps_maximum keeps_minimum keeps_median keeps_mean
        keeps_constant keeps_linear_ramp keeps_reflect keeps_wrap)





section \<open>Shape and interior of the result\<close>




text \<open>
  Claim C2. Whenever one of the eight public functions returns an array for an input
  array \<open>A\<close> and a pad-width specification, the result sliced back by the before
  offsets of the normalized pad width, over the shape of \<open>A\<close>, is \<open>A\<close> itself: every
  generator writes border positions only.
\<close>

theorem interior_round_trip:
  assumes "well_formed A"
    and "maximum A W s = Inr R \<or> minimum A W s = Inr R \<or> median A W s = Inr R
         \<or> mean A W s = Inr R \<or> constant A W c = Inr R \<or> linear_ramp A W e = Inr R
         \<or> reflect A W = Inr R \<or> wrap A W = Inr R"
  shows "\<exists>pws. normalized_pad_width A W = Inr pws \<and> slice_back R pws (shape A) = A"
proof -
  obtain pws where p: "normalized_pad_width A W = Inr pws"
    "\<forall>ind. valid_index (shape A) ind \<longrightarrow> item R (map2 (+) (map fst pws) ind) = item A ind"
    using public_result[OF assms(2)] by blast
  show ?thesis using p(1) slice_back_eq[OF assms(1) p(2)] by blast
qed

theorem interior_round_trip_witness:
  "well_formed \<lparr>shape = [2, 2], data = [1, 2, 3, 4]\<rparr>
   \<and> reflect \<lparr>shape = [2, 2], data = [1, 2, 3, 4]\<rparr> (PySeq [PyInt 1, PyInt 0])
       = Inr \<lparr>shape = [3, 3], data = [4, 3, 4, 2, 1, 2, 4, 3, 4]\<rparr>
   \<and> slice_back \<lparr>shape = [3, 3], data = [4, 3, 4, 2, 1, 2, 4, 3, 4]\<rparr> [(1, 0), (1, 0)] [2, 2]
       = \<lparr>shape = [2, 2], data = [1, 2, 3, 4]\<rparr>"
proof -
  let ?A = "\<lparr>shape = [2, 2], data = [1, 2, 3, 4]\<rparr>"
  let ?W = "PySeq [PyInt 1, PyInt 0]"
  let ?R = "\<lparr>shape = [3, 3], data = [4, 3, 4, 2, 1, 2, 4, 3, 4]\<rparr>"
  have wf: "well_formed ?A" by (simp add: well_formed_def)
  have r: "reflect ?A ?W = Inr ?R" by code_simp
  have n: "normalized_pad_width ?A ?W = Inr [(1, 0), (1, 0)]" by code_simp
  have "\<exists>pws. normalized_pad_width ?A ?W = Inr pws \<and> slice_back ?R pws (shape ?A) = ?A"
    by (rule interior_round_trip[where s = PyNone and c = PyNone and e = PyNone, OF wf])
       (simp add: r)
  then have "slice_back ?R [(1, 0), (1, 0)] [2, 2] = ?A" using n by simp
  then show ?thesis using wf r by simp
qed

section \<open>Validation: broadcast forms and errors\<close>

lemma broadcast_scalar:
  "broadcast_pw n (PySeq [PyInt p]) = Inr (Some (replicate n (PySeq [PyInt p, PyInt p])))"
  by (simp add: broadcast_pw_def)

lemma broadcast_full:
  "0 < n \<Longrightarrow> broadcast_pw n (PySeq (replicate n (PySeq [PyInt p, PyInt p])))
     = Inr (Some (replicate n (PySeq [PyInt p, PyInt p])))"
  by (cases n) (simp_all add: broadcast_pw_def)

lemma validate_scalar_full:
  assumes "shape A \<noteq> []"
  shows "validate_tuple A (PySeq [PyInt p])
       = validate_tuple A (PySeq (replicate (length (shape A)) (PySeq [PyInt p, PyInt p])))"
  using assms by (simp add: validate_tuple_def broadcast_scalar broadcast_full)

lemma loop_across_scalar_full:
  "loop_across A (PySeq [PyInt p]) g kw
   = loop_across A (PySeq (replicate (length (shape A)) (PySeq [PyInt p, PyInt p]))) g kw"
proof (cases "shape A = []")
  case True
  then show ?thesis
    by (simp add: loop_across_def validate_tuple_def broadcast_pw_def)
next
  case False
  then show ?thesis
    by (simp add: loop_across_def validate_scalar_full)
qed

text \<open>
  Claim C8. For every array \<open>A\<close>, every integer \<open>p\<close> and every public function, the
  call with the scalar pad width \<open>(p,)\<close> has the same outcome as the call with the
  explicit per-axis form \<open>((p,p),)\<close> repeated rank-many times: the same array, or the
  same error (for a negative \<open>p\<close>, and for any other failure of the call).
\<close>

theorem scalar_equals_full_form:
  "maximum A (PySeq [PyInt p]) s
     = maximum A (PySeq (replicate (length (shape A)) (PySeq [PyInt p, PyInt p]))) s
   \<and> minimum A (PySeq [PyInt p]) s
     = minimum A (PySeq (replicate (length (shape A)) (PySeq [PyInt p, PyInt p]))) s
   \<and> median A (PySeq [PyInt p]) s
     = median A (PySeq (replicate (length (shape A)) (PySeq [PyInt p, PyInt p]))) s
   \<and> mean A (PySeq [PyInt p]) s
     = mean A (PySeq (replicate (length (shape A)) (PySeq [PyInt p, PyInt p]))) s
   \<and> constant A (PySeq [PyInt p]) c
     = constant A (PySeq (replicate (length (shape A)) (PySeq [PyInt p, PyInt p]))) c
   \<and> linear_ramp A (PySeq [PyInt p]) e
     = linear_ramp A (PySeq (replicate (length (shape A)) (PySeq [PyInt p, PyInt p]))) e
   \<and> reflect A (PySeq [PyInt p])
     = reflect A (PySeq (replicate (length (shape A)) (PySeq [PyInt p, PyInt p])))
   \<and> wrap A (PySeq [PyInt p])
     = wrap A (PySeq (replicate (length (shape A)) (PySeq [PyInt p, PyInt p])))"
  by (simp add: maximum_def minimum_def median_def mean_def constant_def linear_ramp_def
        reflect_def wrap_def loop_across_scalar_full)

theorem scalar_equals_full_form_witness:
  "reflect \<lparr>shape = [2, 2], data = [1, 2, 3, 4]\<rparr> (PySeq [PyInt 1])
     = reflect \<lparr>shape = [2, 2], data = [1, 2, 3, 4]\<rparr>
         (PySeq [PySeq [PyInt 1, PyInt 1], PySeq [PyInt 1, PyInt 1]])
   \<and> reflect \<lparr>shape = [2, 2], data = [1, 2, 3, 4]\<rparr> (PySeq [PyInt 1])
     = Inr \<lparr>shape = [4, 4], data = [4, 3, 4, 3, 2, 1, 2, 1, 4, 3, 4, 3, 2, 1, 2, 1]\<rparr>"
proof -
  let ?A = "\<lparr>shape = [2, 2], data = [1, 2, 3, 4]\<rparr>"
  have "reflect ?A (PySeq [PyInt 1])
     = reflect ?A (PySeq (replicate (length (shape ?A)) (PySeq [PyInt 1, PyInt 1])))"
    using scalar_equals_full_form[of ?A 1 PyNone PyNone PyNone] by blast
  moreover have "replicate (length (shape ?A)) (PySeq [PyInt 1, PyInt 1])
     = [PySeq [PyInt 1, PyInt 1], PySeq [PyInt 1, PyInt 1]]" by (simp add: numeral_2_eq_2)
  moreover have "reflect ?A (PySeq [PyInt 1])
     = Inr \<lparr>shape = [4, 4], data = [4, 3, 4, 3, 2, 1, 2, 1, 4, 3, 4, 3, 2, 1, 2, 1]\<rparr>"
    by code_simp
  ultimately show ?thesis by simp
qed

lemma is_pair_iff: "is_pair x \<longleftrightarrow> (\<exists>a b. x = PySeq [a, b])"
  by (cases x rule: is_pair.cases) simp_all

lemma check_pairs_negative:
  "list_all is_pair xs \<Longrightarrow> list_ex negative_pair xs
     \<Longrightarrow> check_pairs rk pw xs = Inl NegativePadWidth"
proof (induction xs)
  case Nil
  then show ?case by simp
next
  case (Cons x xs)
  then obtain a b where x: "x = PySeq [a, b]" by (auto simp: is_pair_iff)
  show ?case
  proof (cases "py_lt0 a \<or> py_lt0 b")
    case True
    then show ?thesis by (simp add: x)
  next
    case False
    then have "list_ex negative_pair xs" using Cons.prems(2) x by simp
    then show ?thesis using Cons.IH Cons.prems(1) False by (simp add: x)
  qed
qed

lemma validate_negative:
  assumes "normalizes_negative A N"
  shows "validate_tuple A N = Inl NegativePadWidth"
proof -
  obtain pw where pw: "broadcast_pw (length (shape A)) N = Inr (Some pw)"
    "list_all is_pair pw" "list_ex negative_pair pw"
    using assms by (auto simp: normalizes_negative_def split: sum.splits option.splits)
  show ?thesis
    using check_pairs_negative[OF pw(2,3)] by (simp add: validate_tuple_def pw(1))
qed

lemma normalizes_negative_truthy: "normalizes_negative A N \<Longrightarrow> py_truthy N"
  by (cases N rule: py_truthy.cases)
     (auto simp: normalizes_negative_def broadcast_pw_def split: list.splits)

lemma loop_across_stat_error:
  assumes "py_truthy (kw_stat_len kw)" "validate_tuple A (kw_stat_len kw) = Inl e"
  shows "loop_across A W g kw = Inl e"
  using assms by (simp add: loop_across_def)

lemma loop_across_pad_error:
  assumes "\<not> py_truthy (kw_stat_len kw) \<or> passes A (kw_stat_len kw)"
    and "validate_tuple A W = Inl e"
  shows "loop_across A W g kw = Inl e"
  using assms by (auto simp: loop_across_def passes_def split: sum.splits)

lemma stat_error:
  assumes "py_truthy S" "validate_tuple A S = Inl e"
  shows "maximum A W S = Inl e \<and> minimum A W S = Inl e \<and> median A W S = Inl e
       \<and> mean A W S = Inl e"
  using assms
  by (simp add: maximum_def minimum_def median_def mean_def loop_across_stat_error)

lemma aux_error:
  assumes "validate_tuple A C = Inl e"
  shows "constant A W C = Inl e \<and> linear_ramp A W C = Inl e"
  using assms by (simp add: constant_def linear_ramp_def)

lemma pad_error_plain:
  assumes "validate_tuple A W = Inl e"
  shows "reflect A W = Inl e \<and> wrap A W = Inl e"
  using assms by (simp add: reflect_def wrap_def loop_across_pad_error no_kw_def)

lemma pad_error_stat:
  assumes "\<not> py_truthy S \<or> passes A S" "validate_tuple A W = Inl e"
  shows "maximum A W S = Inl e \<and> minimum A W S = Inl e \<and> median A W S = Inl e
       \<and> mean A W S = Inl e"
  using assms
  by (simp add: maximum_def minimum_def median_def mean_def loop_across_pad_error)

lemma pad_error_aux:
  assumes "passes A C" "validate_tuple A W = Inl e"
  shows "constant A W C = Inl e \<and> linear_ramp A W C = Inl e"
  using assms
  by (auto simp: constant_def linear_ramp_def passes_def loop_across_pad_error no_kw_def
           split: sum.splits)

text \<open>
  Claim C3, as amended. The same validation, with the same negativity check, is applied
  to the pad width and to every auxiliary parameter (\<open>stat_len\<close>, \<open>constant_values\<close>,
  \<open>end_value\<close>): on a specification \<open>N\<close> that normalizes to a per-axis pair list with a
  negative component it raises \<open>NegativePadWidth\<close>. A call raises that error when \<open>N\<close>
  is its auxiliary parameter, which is validated first, whatever the pad width is, and
  when \<open>N\<close> is its pad width and the auxiliary parameter is accepted by the validation
  (or is a \<open>stat_len\<close> that is absent or empty); reflect and wrap have no auxiliary
  parameter.
\<close>

theorem negative_width_raises:
  assumes "normalizes_negative A N"
  shows "validate_tuple A N = Inl NegativePadWidth
     \<and> reflect A N = Inl NegativePadWidth \<and> wrap A N = Inl NegativePadWidth
     \<and> maximum A W N = Inl NegativePadWidth \<and> minimum A W N = Inl NegativePadWidth
     \<and> median A W N = Inl NegativePadWidth \<and> mean A W N = Inl NegativePadWidth
     \<and> constant A W N = Inl NegativePadWidth \<and> linear_ramp A W N = Inl NegativePadWidth
     \<and> (\<not> py_truthy S \<or> passes A S \<longrightarrow>
          maximum A N S = Inl NegativePadWidth \<and> minimum A N S = Inl NegativePadWidth
          \<and> median A N S = Inl NegativePadWidth \<and> mean A N S = Inl NegativePadWidth)
     \<and> (passes A S \<longrightarrow>
          constant A N S = Inl NegativePadWidth \<and> linear_ramp A N S = Inl NegativePadWidth)"
proof -
  have v: "validate_tuple A N = Inl NegativePadWidth" using assms by (rule validate_negative)
  have t: "py_truthy N" using assms by (rule normalizes_negative_truthy)
  show ?thesis
    using v pad_error_plain[OF v] stat_error[OF t v] aux_error[OF v]
      pad_error_stat[OF _ v] pad_error_aux[OF _ v]
    by blast
qed

theorem negative_width_raises_witness:
  "normalizes_negative \<lparr>shape = [2, 2], data = [1, 2, 3, 4]\<rparr>
      (PySeq [PySeq [PyInt 1, PyInt 2], PySeq [PyInt 3, PyInt (- 1)]])
   \<and> passes \<lparr>shape = [2, 2], data = [1, 2, 3, 4]\<rparr> (PySeq [PyInt 0])
   \<and> wrap \<lparr>shape = [2, 2], data = [1, 2, 3, 4]\<rparr>
        (PySeq [PySeq [PyInt 1, PyInt 2], PySeq [PyInt 3, PyInt (- 1)]]) = Inl NegativePadWidth
   \<and> mean \<lparr>shape = [2, 2], data = [1, 2, 3, 4]\<rparr> (PySeq [PyInt 7, PyInt 7, PyInt 7])
        (PySeq [PySeq [PyInt 1, PyInt 2], PySeq [PyInt 3, PyInt (- 1)]]) = Inl NegativePadWidth
   \<and> constant \<lparr>shape = [2, 2], data = [1, 2, 3, 4]\<rparr>
        (PySeq [PySeq [PyInt 1, PyInt 2], PySeq [PyInt 3, PyInt (- 1)]]) (PySeq [PyInt 0])
        = Inl NegativePadWidth"
proof -
  let ?A = "\<lparr>shape = [2, 2], data = [1, 2, 3, 4]\<rparr>"
  let ?N = "PySeq [PySeq [PyInt 1, PyInt 2], PySeq [PyInt 3, PyInt (- 1)]]"
  have n: "normalizes_negative ?A ?N" by code_simp
  have p: "passes ?A (PySeq [PyInt 0])" by code_simp
  show ?thesis
    using n p negative_width_raises[OF n, of "PySeq [PyInt 7, PyInt 7, PyInt 7]" "PySeq [PyInt 0]"]
    by blast
qed

text \<open>
  The claim as stated fails when the specification validated first is malformed: with
  the negative pad width \<open>(-1,)\<close> and the constant values \<open>(1,2,3)\<close>, \<open>constant\<close>
  raises \<open>PadWidthWrongNumberOfValues\<close> for the constant values, not
  \<open>NegativePadWidth\<close>.
\<close>

theorem negative_width_masked:
  "normalizes_negative \<lparr>shape = [5], data = [1, 2, 3, 4, 5]\<rparr> (PySeq [PyInt (- 1)])
   \<and> constant \<lparr>shape = [5], data = [1, 2, 3, 4, 5]\<rparr> (PySeq [PyInt (- 1)])
        (PySeq [PyInt 1, PyInt 2, PyInt 3])
     = Inl (PadWidthWrongNumberOfValues 1 (PySeq [PyInt 1, PyInt 2, PyInt 3]))"
  by code_simp











section \<open>Borders written by the generators\<close>

lemma create_vector_result:
  assumes "length (bv v) = p0" "length (av (bv v @ drop p0 v)) = p1" "p0 + p1 \<le> length v"
  shows "create_vector v (p0, p1) bv av
         = Inr (bv v @ interior v p0 p1 @ av (bv v @ drop p0 v))"
proof -
  let ?v1 = "bv v @ drop p0 v"
  have r0: "slice_range (length v) None (Some (int p0)) = (0, p0)"
    using assms(3) by (simp add: slice_range_before min_def)
  have v1: "np_setslice v None (Some (int p0)) (bv v) = Inr ?v1"
    using np_setslice_total[OF r0 assms(1)] by simp
  have l1: "length ?v1 = length v" using assms(1,3) by simp
  show ?thesis
  proof (cases "p1 > 0")
    case False
    then have "av ?v1 = []" using assms(2) by simp
    then show ?thesis using v1 False by (simp add: create_vector_def interior_def)
  next
    case True
    have "slice_range (length v) (Some (- int p1)) None = (length v - p1, p1)"
      using slice_range_after[OF True, of "length v"] assms(3) by (simp add: min_def)
    then have r1: "slice_range (length ?v1) (Some (- int p1)) None = (length v - p1, p1)"
      unfolding l1 .
    have a: "np_setslice ?v1 (Some (- int p1)) None (av ?v1)
        = Inr (take (length v - p1) ?v1 @ av ?v1 @ drop (length v - p1 + p1) ?v1)"
      by (rule np_setslice_total[OF r1 assms(2)])
    have t: "take (length v - p1) ?v1 = bv v @ interior v p0 p1"
      using assms(1,3) by (simp add: interior_def add.commute)
    have dr: "drop (length v - p1 + p1) ?v1 = []" using assms(3) l1 by simp
    have "np_setslice ?v1 (Some (- int p1)) None (av ?v1)
        = Inr (bv v @ interior v p0 p1 @ av ?v1)"
      by (simp only: a t dr append_Nil2 append_assoc)
    then show ?thesis using v1 True by (simp add: create_vector_def)
  qed
qed

lemma indices_1d: "indices [n] = map (\<lambda>i. [i]) [0..<n]"
  by (induction n) simp_all

lemma place_1d:
  assumes "length xs = n"
  shows "place \<lparr>shape = [n], data = xs\<rparr> [(p0, p1)]
       = \<lparr>shape = [n + (p0 + p1)], data = replicate p0 0 @ xs @ replicate p1 0\<rparr>"
proof -
  have "map (\<lambda>ind. if in_slices [p0] [n] ind
                    then item \<lparr>shape = [n], data = xs\<rparr> (map2 (-) ind [p0]) else 0)
            (indices [n + (p0 + p1)])
        = replicate p0 0 @ xs @ replicate p1 0"
    using assms
    by (auto simp: list_eq_iff_nth_eq indices_1d in_slices_def item_def nth_append)
  then show ?thesis by (simp add: place_def)
qed

lemma apply_along_axis_1d:
  assumes "length d = n" "\<And>r. f d = Inr r \<Longrightarrow> length r = n"
  shows "apply_along_axis f 0 \<lparr>shape = [n], data = d\<rparr>
       = bind_err (f d) (\<lambda>r. Inr \<lparr>shape = [n], data = r\<rparr>)"
proof -
  have line: "line_of \<lparr>shape = [n], data = d\<rparr> 0 [0] = d"
    using assms(1) by (auto simp: line_of_def item_def list_eq_iff_nth_eq)
  show ?thesis
  proof (cases "f d")
    case (Inl e)
    then show ?thesis by (simp add: apply_along_axis_def line)
  next
    case (Inr r)
    have "map (\<lambda>ind. [r] ! ravel_index [1] (ind[0 := 0]) ! (ind ! 0)) (indices [n]) = r"
      using assms(2)[OF Inr] by (auto simp: indices_1d list_eq_iff_nth_eq)
    then show ?thesis using Inr by (simp add: apply_along_axis_def line)
  qed
qed

lemma loop_across_1d:
  assumes "normalized_pad_width \<lparr>shape = [n], data = xs\<rparr> W = Inr [(p0, p1)]"
    and "length xs = n" "\<not> py_truthy (kw_stat_len kw)" "keeps_interior g"
  shows "loop_across \<lparr>shape = [n], data = xs\<rparr> W g kw
       = bind_err (g (replicate p0 0 @ xs @ replicate p1 0) (p0, p1) 0
                     (replicate p0 (Finite 0)) (replicate p1 (Finite 0))
                     (kw\<lparr>kw_stat_len := PyNone\<rparr>))
           (\<lambda>r. Inr \<lparr>shape = [n + (p0 + p1)], data = r\<rparr>)"
proof -
  let ?A = "\<lparr>shape = [n], data = xs\<rparr>"
  let ?v = "replicate p0 0 @ xs @ replicate p1 (0::int)"
  let ?f = "\<lambda>vector. g vector (p0, p1) 0 (replicate p0 (Finite 0)) (replicate p1 (Finite 0))
                     (kw\<lparr>kw_stat_len := PyNone\<rparr>)"
  obtain pw where pw: "validate_tuple ?A W = Inr pw" "int_pairs pw = Inr [(p0, p1)]"
    using assms(1) by (auto simp: normalized_pad_width_def bind_err_eq_Inr)
  have len: "length ?v = n + (p0 + p1)" using assms(2) by simp
  have keep: "\<And>r. ?f ?v = Inr r \<Longrightarrow> length r = n + (p0 + p1)"
    using assms(4) len unfolding keeps_interior_def by metis
  have nil: "loop_axes g [(p0, p1)] (kw\<lparr>kw_stat_len := PyNone\<rparr>) [] = Inr"
    by (rule ext) simp
  have "loop_across ?A W g kw
      = bind_err (apply_along_axis ?f 0 (place ?A [(p0, p1)])) Inr"
    using pw assms(3) by (simp add: loop_across_def nil)
  also have "\<dots> = bind_err (bind_err (?f ?v) (\<lambda>r. Inr \<lparr>shape = [n + (p0 + p1)], data = r\<rparr>)) Inr"
    using apply_along_axis_1d[of ?v "n + (p0 + p1)" ?f, OF len keep]
    by (simp add: place_1d[OF assms(2)])
  also have "\<dots> = bind_err (?f ?v) (\<lambda>r. Inr \<lparr>shape = [n + (p0 + p1)], data = r\<rparr>)"
    by (cases "?f ?v") simp_all
  finally show ?thesis .
qed

lemma interior_placed [simp]:
  "interior (replicate p0 z @ xs @ replicate p1 z) p0 p1 = xs"
  by (simp add: interior_def)

lemma slice_bound_nat: "slice_bound n (int a) = min n a"
  by (simp add: slice_bound_def)

lemma slice_bound_neg: "0 < a \<Longrightarrow> slice_bound n (- int a) = n - a"
  by (auto simp: slice_bound_def)

lemma py_slice_Some:
  "py_slice v (Some a) (Some b)
   = take (slice_bound (length v) b - slice_bound (length v) a)
          (drop (slice_bound (length v) a) v)"
  by (simp add: py_slice_def slice_range_def Let_def)

lemma wrap_before_view:
  assumes "0 < p1" "p0 + p1 \<le> length v" "p0 \<le> length v - (p0 + p1)"
  shows "py_slice v (Some (- (int p1 + int p0))) (Some (- int p1))
       = drop (length v - (p0 + p1) - p0) (interior v p0 p1)"
proof -
  let ?n = "length v - (p0 + p1)"
  have s: "slice_bound (length v) (- (int p1 + int p0)) = ?n"
    using slice_bound_neg[of "p1 + p0" "length v"] assms(1) by (simp add: add.commute)
  have e: "slice_bound (length v) (- int p1) = length v - p1"
    using assms(1) by (rule slice_bound_neg)
  have "py_slice v (Some (- (int p1 + int p0))) (Some (- int p1))
      = take (length v - p1 - ?n) (drop ?n v)"
    unfolding py_slice_Some s e ..
  moreover have "length v - p1 - ?n = p0" using assms by simp
  moreover have "drop (?n - p0) (interior v p0 p1) = take p0 (drop ?n v)"
    using assms by (simp add: interior_def drop_take)
  ultimately show ?thesis by simp
qed

lemma wrap_after_view:
  assumes "length b = p0" "p0 + p1 \<le> length v" "p1 \<le> length v - (p0 + p1)"
  shows "py_slice (b @ drop p0 v) (Some (int p0)) (Some (int p0 + int p1))
       = take p1 (interior v p0 p1)"
proof -
  let ?w = "b @ drop p0 v"
  have l: "length ?w = length v" using assms by simp
  have s: "slice_bound (length ?w) (int p0) = p0"
    unfolding l slice_bound_nat using assms by simp
  have e: "slice_bound (length ?w) (int p0 + int p1) = p0 + p1"
    using slice_bound_nat[of "length v" "p0 + p1"] assms unfolding l by simp
  have "py_slice ?w (Some (int p0)) (Some (int p0 + int p1)) = take (p0 + p1 - p0) (drop p0 ?w)"
    unfolding py_slice_Some s e ..
  then show ?thesis using assms by (simp add: interior_def)
qed

lemma wrap_gen_circular:
  assumes "p0 + p1 \<le> length v" "p0 \<le> length v - (p0 + p1)" "p1 \<le> length v - (p0 + p1)"
    and "0 < p1 \<or> p0 = 0"
  shows "wrap_gen v (p0, p1) iaxis bvec avec kw = Inr (wrapped (interior v p0 p1) p0 p1)"
proof -
  let ?bv = "\<lambda>v. py_slice v (Some (- (int p1 + int p0))) (Some (- int p1))"
  let ?av = "\<lambda>v. py_slice v (Some (int p0)) (Some (int p0 + int p1))"
  have b: "?bv v = drop (length v - (p0 + p1) - p0) (interior v p0 p1)"
  proof (cases "0 < p1")
    case True
    then show ?thesis using wrap_before_view[OF True assms(1,2)] by simp
  next
    case False
    then have "p0 = 0" "p1 = 0" using assms(4) by simp_all
    then show ?thesis
      by (simp add: py_slice_def slice_range_def slice_bound_def interior_def)
  qed
  have lb: "length (?bv v) = p0" unfolding b using assms by simp
  have a: "?av (?bv v @ drop p0 v) = take p1 (interior v p0 p1)"
    by (rule wrap_after_view[OF lb assms(1,3)])
  have la: "length (?av (?bv v @ drop p0 v)) = p1" unfolding a using assms by simp
  have "create_vector v (p0, p1) ?bv ?av
      = Inr (?bv v @ interior v p0 p1 @ ?av (?bv v @ drop p0 v))"
    by (rule create_vector_result[of ?bv v p0 ?av p1, OF lb la assms(1)])
  moreover have "?bv v @ interior v p0 p1 @ ?av (?bv v @ drop p0 v)
      = wrapped (interior v p0 p1) p0 p1"
    by (subst a, unfold b, simp add: wrapped_def)
  ultimately have "create_vector v (p0, p1) ?bv ?av = Inr (wrapped (interior v p0 p1) p0 p1)"
    by (simp only:)
  then show ?thesis by (simp add: wrap_gen_def)
qed

lemma wrap_gen_zero_after:
  assumes "0 < p0" "p0 \<le> length v"
  shows "wrap_gen v (p0, 0) iaxis bvec avec kw = Inl ValueError"
proof -
  have "py_slice v (Some (- int p0)) (Some 0) = []"
    by (simp add: py_slice_def slice_range_def slice_bound_def)
  then show ?thesis
    using assms
    by (simp add: wrap_gen_def create_vector_def np_setslice_def slice_range_before min_def)
qed

lemma normalized_pair_1d:
  "normalized_pad_width \<lparr>shape = [n], data = xs\<rparr> (PySeq [PyInt (int p0), PyInt (int p1)])
   = Inr [(p0, p1)]"
  by (simp add: normalized_pad_width_def validate_tuple_def broadcast_pw_def)

text \<open>
  \<open>wrap\<close> on a one-dimensional array with pad widths within its length: the array is
  treated as circular when the after width is positive or the before width is 0, and
  the call raises \<open>ValueError\<close> when the after width is 0 and the before width is not.
\<close>

lemma wrap_1d:
  assumes "length xs = n" "p0 \<le> n" "p1 \<le> n"
  shows "(0 < p1 \<or> p0 = 0 \<longrightarrow>
            wrap \<lparr>shape = [n], data = xs\<rparr> (PySeq [PyInt (int p0), PyInt (int p1)])
            = Inr \<lparr>shape = [n + (p0 + p1)], data = wrapped xs p0 p1\<rparr>)
       \<and> (p1 = 0 \<and> 0 < p0 \<longrightarrow>
            wrap \<lparr>shape = [n], data = xs\<rparr> (PySeq [PyInt (int p0), PyInt (int p1)])
            = Inl ValueError)"
proof -
  let ?A = "\<lparr>shape = [n], data = xs\<rparr>"
  let ?W = "PySeq [PyInt (int p0), PyInt (int p1)]"
  let ?v = "replicate p0 0 @ xs @ replicate p1 (0::int)"
  have run: "wrap ?A ?W
      = bind_err (wrap_gen ?v (p0, p1) 0 (replicate p0 (Finite 0)) (replicate p1 (Finite 0))
                    (no_kw\<lparr>kw_stat_len := PyNone\<rparr>))
          (\<lambda>r. Inr \<lparr>shape = [n + (p0 + p1)], data = r\<rparr>)"
    unfolding wrap_def
    by (rule loop_across_1d[OF normalized_pair_1d assms(1) _ keeps_wrap])
       (simp add: no_kw_def)
  have good: "wrap_gen ?v (p0, p1) 0 bvec avec kw = Inr (wrapped xs p0 p1)"
    if "0 < p1 \<or> p0 = 0" for bvec avec kw
    using wrap_gen_circular[of p0 p1 ?v, OF _ _ _ that] assms by simp
  have bad: "wrap_gen ?v (p0, p1) 0 bvec avec kw = Inl ValueError"
    if h: "p1 = 0 \<and> 0 < p0" for bvec avec kw
  proof -
    have "wrap_gen ?v (p0, 0) 0 bvec avec kw = Inl ValueError"
      by (rule wrap_gen_zero_after) (use h in simp_all)
    then show ?thesis using h by simp
  qed
  have "0 < p1 \<or> p0 = 0 \<longrightarrow> wrap ?A ?W = Inr \<lparr>shape = [n + (p0 + p1)], data = wrapped xs p0 p1\<rparr>"
    unfolding run using good by simp
  moreover have "p1 = 0 \<and> 0 < p0 \<longrightarrow> wrap ?A ?W = Inl ValueError"
    unfolding run using bad by simp
  ultimately show ?thesis by (rule conjI)
qed


















text \<open>
  Claim C6. The claim says that \<open>wrap\<close> takes the before border from the last \<open>before\<close>
  interior elements also when \<open>after = 0\<close> and \<open>before > 0\<close>. There the code slices
  \<^verbatim>\<open>vector[-(0 + before):-0]\<close>, which is \<^verbatim>\<open>vector[-before:0]\<close> and empty, and the
  assignment of the empty array to the before border raises \<open>ValueError\<close>:
  \<open>wrap([1,2,3,4,5], (2,0))\<close> returns no array, where circular padding gives
  \<open>[4,5,1,2,3,4,5]\<close>. For a positive after width the claim holds (\<open>wrap_1d\<close>).
\<close>

theorem wrap_zero_after_raises:
  "wrap \<lparr>shape = [5], data = [1, 2, 3, 4, 5]\<rparr> (PySeq [PyInt 2, PyInt 0]) = Inl ValueError"
  by code_simp

section \<open>The documented examples\<close>

text \<open>
  Claim C9. \<open>minimum\<close> on the 2-D array \<open>[[1,2],[3,4]]\<close> with
  \<open>pad_width=((3,2),(2,3))\<close> returns the 7x7 array whose rows 0 to 3 and 5 to 6 are
  \<open>[1,1,1,2,1,1,1]\<close> and whose row 4 is \<open>[3,3,3,4,3,3,3]\<close>: axis 0 is padded first,
  and the generator of axis 1 then takes each row minimum over the two interior
  columns, which axis 0 has already filled in every row.
\<close>

theorem minimum_2d_example:
  "minimum \<lparr>shape = [2, 2], data = [1, 2, 3, 4]\<rparr>
     (PySeq [PySeq [PyInt 3, PyInt 2], PySeq [PyInt 2, PyInt 3]]) PyNone
   = Inr \<lparr>shape = [7, 7],
          data = [1, 1, 1, 2, 1, 1, 1,
                  1, 1, 1, 2, 1, 1, 1,
                  1, 1, 1, 2, 1, 1, 1,
                  1, 1, 1, 2, 1, 1, 1,
                  3, 3, 3, 4, 3, 3, 3,
                  1, 1, 1, 2, 1, 1, 1,
                  1, 1, 1, 2, 1, 1, 1]\<rparr>"
  by code_simp

text \<open>
  Claim C4. The docstring of \<open>linear_ramp\<close> gives
  \<open>linear_ramp([1,2,3,4,5], (2,3), (5,-4)) = [5,3,1,2,3,4,5,2,-1,-4]\<close>. The code
  passes \<open>end_value\<close> through the pad-width validation, which rejects the end value
  \<open>-4\<close> as a negative width: the call raises \<open>NegativePadWidth\<close> and returns no array.
\<close>

theorem linear_ramp_example_raises:
  "linear_ramp \<lparr>shape = [5], data = [1, 2, 3, 4, 5]\<rparr>
     (PySeq [PyInt 2, PyInt 3]) (PySeq [PyInt 5, PyInt (- 4)])
   = Inl NegativePadWidth"
  by code_simp

text \<open>
  The generator itself, called on the placed line with these end values, computes
  the documented array: the defect is the validation of \<open>end_value\<close>, not the ramp.
\<close>

lemma linear_ramp_gen_example:
  "linear_ramp_gen [0, 0, 1, 2, 3, 4, 5, 0, 0, 0] (2, 3) 0 [] []
     (no_kw\<lparr>kw_end_value := PySeq [PySeq [PyInt 5, PyInt (- 4)]]\<rparr>)
   = Inr [5, 3, 1, 2, 3, 4, 5, 2, - 1, - 4]"
  by code_simp

end
